theory Spec2Isabelle
  imports Complex_Main "HOL-Library.AList"
begin

section \<open>Data model of ya\_micro\_batcher.ts\<close>

text \<open>
  The enum \<open>JobStatus\<close> and the two result interfaces. \<open>JobResult\<close> has the fields of
  \<open>AckJobSubmitted\<close> followed by \<open>result\<close>, so it is the extension of that record. An
  optional field (\<open>message?\<close>, \<open>T | undefined\<close>) is an \<open>option\<close>.
\<close>

datatype JobStatus = SUBMITTED | FAILED | PROCESSED | TIMEOUT | NOT_FOUND

record AckJobSubmitted =
  status :: JobStatus
  message :: "string option"
  jobId :: string

record 'a JobResult = AckJobSubmitted +
  result :: "'a option"

text \<open>
  A JavaScript \<open>Map<string, T>\<close> keeps its keys unique and in insertion order, and
  \<open>set\<close> on a key that is present replaces the value in place: an association list with
  \<open>AList.update\<close>. \<open>size\<close> is \<open>length\<close>, \<open>has k\<close> is \<open>map_of m k \<noteq> None\<close>.
\<close>

type_synonym 'a jsmap = "(string \<times> 'a) list"

text \<open>
  The configuration object. Every field that the constructor tests for presence is an
  \<open>option\<close> (\<open>None\<close> is \<open>undefined\<close>). A TypeScript \<open>number\<close> is a real here, so
  that fractional and negative values are inputs; \<open>NaN\<close> and the infinities, and the
  rounding of floating-point arithmetic, are left out. The callback
  \<open>batchProcessor\<close> is only tested for presence by the constructor; what it answers
  to each call is an input of \<open>processJobs_resume\<close> below.
\<close>

record YaMicroBatcherConfig =
  cfg_batchSize :: "real option"
  cfg_batchTimeout :: "real option"
  cfg_batchProcessor :: bool
  cfg_returnAck :: "bool option"
  cfg_memoryLimit :: "real option"
  cfg_autoProcessOnMemoryLimit :: "bool option"
  cfg_storePastJobs :: "bool option"

text \<open>
  The private fields of class \<open>YaMicroBatcher\<close>. \<open>batchTimeout\<close> is an \<open>option\<close>
  because the constructor can store \<open>undefined\<close> there. \<open>finishedJobs\<close> stores
  \<open>jobs.get(result.jobId)!\<close>, which is \<open>undefined\<close> for an identifier that the batch
  does not hold. \<open>timeoutId\<close> is the handle of a timer, \<open>None\<close> for \<open>null\<close>.
\<close>

record 'a YaMicroBatcher =
  batchSize :: real
  batchTimeout :: "real option"
  memoryLimit :: real
  autoProcessOnMemoryLimit :: bool
  currentMemory :: real
  jobs :: "'a jsmap"
  finishedJobs :: "'a option jsmap"
  timeoutId :: "nat option"
  shutDown :: bool
  isProcessing :: bool
  returnAck :: bool

text \<open>
  Who called \<open>processJobs\<close>: the four call sites of the class. The call site decides
  what happens to the promise that \<open>processJobs\<close> returns.
\<close>

datatype caller = Schedule | Timer | ForceProcess | Shutdown

text \<open>
  The instance together with the part of the JavaScript runtime that its methods act on:
  \<^item> \<open>timers\<close>: the handles of the timers that \<open>setTimeout\<close> armed and that have neither
    fired nor been cleared; \<open>nextTimer\<close> is the next fresh handle;
  \<^item> \<open>uuidCalls\<close>: how many identifiers \<open>generateUUID\<close> has handed out;
  \<^item> \<open>calls\<close>: the argument of every call of \<open>batchProcessor\<close>, in order;
  \<^item> \<open>inflight\<close>: the calls of \<open>processJobs\<close> suspended at \<open>await\<close>, each with its
    number, its call site and its local constant \<open>jobs\<close> (the snapshot);
  \<^item> \<open>errorLog\<close>: the arguments of \<open>console.error\<close>;
  \<^item> \<open>unhandled\<close>: the rejections of promises that nothing handles;
  \<^item> \<open>returned\<close>: the settled promises of \<open>forceProcess\<close> and \<open>shutdown\<close>, each with
    the number of the batch-fire it awaited (if any) and the error it rejected with (if
    any).
\<close>

record 'a runtime = "'a YaMicroBatcher" +
  timers :: "nat set"
  nextTimer :: nat
  uuidCalls :: nat
  calls :: "'a jsmap list"
  inflight :: "(nat \<times> caller \<times> 'a jsmap) list"
  nextFire :: nat
  errorLog :: "string list"
  unhandled :: "string list"
  returned :: "(caller \<times> nat option \<times> string option) list"

text \<open>
  The collaborators of utils.ts that depend on the payload type or on randomness:
  \<open>byteLength jobs\<close> is \<open>Buffer.byteLength(JSON.stringify(jobs), 'utf8')\<close>, or \<open>Inl e\<close>
  when \<open>JSON.stringify\<close> throws \<open>e\<close> (a payload with a cycle or a \<open>BigInt\<close>), and
  \<open>randomUUID n\<close> is the identifier that the \<open>n\<close>-th call of \<open>randomUUID()\<close> returns.
\<close>

record 'a env =
  byteLength :: "'a list \<Rightarrow> string + nat"
  randomUUID :: "nat \<Rightarrow> string"

section \<open>utils.ts\<close>

definition generateUUID :: "'a env \<Rightarrow> 'a runtime \<Rightarrow> string \<times> 'a runtime" where
  "generateUUID env w = (randomUUID env (uuidCalls w), w\<lparr>uuidCalls := Suc (uuidCalls w)\<rparr>)"

definition calculateMemory :: "'a env \<Rightarrow> 'a list \<Rightarrow> string + real" where
  "calculateMemory env js =
     (case byteLength env js of
        Inl e \<Rightarrow> Inl e
      | Inr n \<Rightarrow> Inr (real n / 1024 / 1024))"

definition isMemoryLimitReached :: "'a env \<Rightarrow> 'a list \<Rightarrow> real \<Rightarrow> string + bool" where
  "isMemoryLimitReached env js limit =
     (case calculateMemory env js of
        Inl e \<Rightarrow> Inl e
      | Inr m \<Rightarrow> Inr (m \<ge> limit))"

section \<open>The constructor\<close>

text \<open>
  The values that the constructor's conditions range over, and JavaScript's truthiness,
  \<open>??\<close> and \<open>>\<close> on them (\<open>undefined > n\<close> is \<open>false\<close>).
\<close>

datatype jsval = Undefined | Num real | Bool bool

fun truthy :: "jsval \<Rightarrow> bool" where
  "truthy Undefined = False"
| "truthy (Num n) = (n \<noteq> 0)"
| "truthy (Bool b) = b"

fun num :: "real option \<Rightarrow> jsval" where
  "num None = Undefined"
| "num (Some n) = Num n"

fun nullish :: "jsval \<Rightarrow> jsval \<Rightarrow> jsval" where
  "nullish Undefined y = y"
| "nullish x y = x"

fun gt :: "real option \<Rightarrow> real \<Rightarrow> bool" where
  "gt None m = False"
| "gt (Some n) m = (n > m)"

text \<open>
  Line 63: \<open>config.batchSize ? config.batchSize > 1000 ? 1000 : config.batchSize : 10\<close>.
\<close>

definition init_batchSize :: "real option \<Rightarrow> real" where
  "init_batchSize c =
     (case c of
        None \<Rightarrow> 10
      | Some n \<Rightarrow> if truthy (Num n) then (if n > 1000 then 1000 else n) else 10)"

text \<open>
  Line 64: \<open>config.batchTimeout ?? config.batchTimeout > 100000 ? 100000 : config.batchTimeout\<close>.
  \<open>>\<close> binds tighter than \<open>??\<close>, and \<open>??\<close> tighter than \<open>? :\<close>, so the expression is
  \<open>(config.batchTimeout ?? (config.batchTimeout > 100000)) ? 100000 : config.batchTimeout\<close>.
\<close>

definition init_batchTimeout :: "real option \<Rightarrow> real option" where
  "init_batchTimeout c =
     (if truthy (nullish (num c) (Bool (gt c 100000))) then Some 100000 else c)"

text \<open>
  Line 65: \<open>config.memoryLimit ? config.memoryLimit > 1024 ? 1024 : config.memoryLimit : 10\<close>.
\<close>

definition init_memoryLimit :: "real option \<Rightarrow> real" where
  "init_memoryLimit c =
     (case c of
        None \<Rightarrow> 10
      | Some m \<Rightarrow> if truthy (Num m) then (if m > 1024 then 1024 else m) else 10)"

definition "constructor" :: "YaMicroBatcherConfig \<Rightarrow> string + 'a YaMicroBatcher" where
  "constructor config =
     (if \<not> cfg_batchProcessor config then Inl ''batchProcessor is required''
      else Inr \<lparr>batchSize = init_batchSize (cfg_batchSize config),
                batchTimeout = init_batchTimeout (cfg_batchTimeout config),
                memoryLimit = init_memoryLimit (cfg_memoryLimit config),
                autoProcessOnMemoryLimit =
                  (case cfg_autoProcessOnMemoryLimit config of None \<Rightarrow> False | Some b \<Rightarrow> b),
                currentMemory = 0,
                jobs = [],
                finishedJobs = [],
                timeoutId = None,
                shutDown = False,
                isProcessing = False,
                returnAck = (case cfg_returnAck config of None \<Rightarrow> False | Some b \<Rightarrow> b)\<rparr>)"

text \<open>A fresh instance in a runtime where nothing has happened yet.\<close>

definition boot :: "'a YaMicroBatcher \<Rightarrow> 'a runtime" where
  "boot b =
     \<lparr>batchSize = batchSize b, batchTimeout = batchTimeout b, memoryLimit = memoryLimit b,
      autoProcessOnMemoryLimit = autoProcessOnMemoryLimit b, currentMemory = currentMemory b,
      jobs = jobs b, finishedJobs = finishedJobs b, timeoutId = timeoutId b,
      shutDown = shutDown b, isProcessing = isProcessing b, returnAck = returnAck b,
      timers = {}, nextTimer = 0, uuidCalls = 0, calls = [], inflight = [], nextFire = 0,
      errorLog = [], unhandled = [], returned = []\<rparr>"

section \<open>The methods\<close>

text \<open>\<open>clearTimeout\<close> and \<open>setTimeout\<close> of the runtime.\<close>

definition clearTimeout :: "nat \<Rightarrow> 'a runtime \<Rightarrow> 'a runtime" where
  "clearTimeout t w = w\<lparr>timers := timers w - {t}\<rparr>"

definition setTimeout :: "'a runtime \<Rightarrow> nat \<times> 'a runtime" where
  "setTimeout w =
     (nextTimer w, w\<lparr>timers := insert (nextTimer w) (timers w), nextTimer := Suc (nextTimer w)\<rparr>)"

text \<open>
  What each call site does with the promise of \<open>processJobs\<close> once it settles, with
  \<open>None\<close> for fulfilled and \<open>Some e\<close> for rejected with \<open>e\<close>:
  \<open>processingShedule\<close> attaches \<open>.catch((error) => console.error(error))\<close>; the timer
  callback \<open>() => this.processJobs()\<close> drops the promise; \<open>forceProcess\<close> and
  \<open>shutdown\<close> await it, so their own promise settles the same way. \<open>k\<close> is the number
  of the batch-fire that was awaited, \<open>None\<close> when \<open>processJobs\<close> returned without one.
\<close>

fun settle :: "caller \<Rightarrow> nat option \<Rightarrow> string option \<Rightarrow> 'a runtime \<Rightarrow> 'a runtime" where
  "settle Schedule k None w = w"
| "settle Schedule k (Some e) w = w\<lparr>errorLog := errorLog w @ [e]\<rparr>"
| "settle Timer k None w = w"
| "settle Timer k (Some e) w = w\<lparr>unhandled := unhandled w @ [e]\<rparr>"
| "settle ForceProcess k r w = w\<lparr>returned := returned w @ [(ForceProcess, k, r)]\<rparr>"
| "settle Shutdown k r w = w\<lparr>returned := returned w @ [(Shutdown, k, r)]\<rparr>"

text \<open>
  \<open>processJobs\<close>, lines 184 to 198: the part that runs before the function suspends at
  \<open>await\<close>. With no pending job it returns; otherwise it swaps the container, calls
  \<open>batchProcessor\<close> with the old one and suspends.
\<close>

definition processJobs :: "caller \<Rightarrow> 'a runtime \<Rightarrow> 'a runtime" where
  "processJobs who w0 =
     (let w1 = w0\<lparr>isProcessing := True\<rparr>;
          w2 = (case timeoutId w1 of
                  Some t \<Rightarrow> (clearTimeout t w1)\<lparr>timeoutId := None\<rparr>
                | None \<Rightarrow> w1)
      in if length (jobs w2) = 0
         then settle who None None (w2\<lparr>currentMemory := 0, isProcessing := False\<rparr>)
         else w2\<lparr>jobs := [], currentMemory := 0,
                 calls := calls w2 @ [jobs w2],
                 inflight := inflight w2 @ [(nextFire w2, who, jobs w2)],
                 nextFire := Suc (nextFire w2)\<rparr>)"

text \<open>
  \<open>processJobs\<close>, lines 198 to 206: what runs when the promise of the \<open>k\<close>-th call of
  \<open>batchProcessor\<close> settles. \<open>Inr results\<close>: the \<open>then\<close> callback records every result
  under its \<open>jobId\<close> with the snapshot's payload, then \<open>this.jobs.clear()\<close> and
  \<open>this.isProcessing = false\<close> run and the promise of \<open>processJobs\<close> is fulfilled.
  \<open>Inl e\<close>: \<open>await\<close> throws \<open>e\<close>, the two statements after it do not run, and the promise
  of \<open>processJobs\<close> is rejected with \<open>e\<close>.

  \<open>this.jobs\<close> is read again at line 204, so \<open>clear()\<close> empties the container that the
  field holds at that moment, not the snapshot. A snapshot is never the value of the field
  again after the swap, so holding containers by value loses no aliasing.

  The \<open>then\<close> callback and the statements after \<open>await\<close> run in two consecutive
  microtasks, and the promise of an awaiting \<open>forceProcess\<close> or \<open>shutdown\<close> settles
  in a later one. They are one step here: nothing of the class runs between them by
  itself, and \<open>batchProcessor\<close> is taken not to call back into the instance.
\<close>

definition record_results :: "'a jsmap \<Rightarrow> 'a JobResult list \<Rightarrow> 'a option jsmap \<Rightarrow> 'a option jsmap" where
  "record_results snapshot results fin =
     foldl (\<lambda>m r. AList.update (jobId r) (map_of snapshot (jobId r)) m) fin results"

definition processJobs_resume :: "nat \<Rightarrow> string + 'a JobResult list \<Rightarrow> 'a runtime \<Rightarrow> 'a runtime" where
  "processJobs_resume k outcome w =
     (case map_of (inflight w) k of
        None \<Rightarrow> w
      | Some (who, snapshot) \<Rightarrow>
          (let w1 = w\<lparr>inflight := AList.delete k (inflight w)\<rparr>
           in case outcome of
                Inl e \<Rightarrow> settle who (Some k) (Some e) w1
              | Inr results \<Rightarrow>
                  settle who (Some k) None
                    (w1\<lparr>finishedJobs := record_results snapshot results (finishedJobs w1),
                        jobs := [],
                        isProcessing := False\<rparr>)))"

text \<open>
  The condition of line 104 and \<open>processingShedule\<close>.
\<close>

definition triggers :: "'a runtime \<Rightarrow> bool" where
  "triggers w \<longleftrightarrow>
     real (length (jobs w)) \<ge> batchSize w
     \<or> (autoProcessOnMemoryLimit w \<and> currentMemory w \<ge> memoryLimit w)"

definition processingShedule :: "'a runtime \<Rightarrow> 'a runtime" where
  "processingShedule w =
     (if isProcessing w then w
      else if triggers w then processJobs Schedule w
      else (let w1 = (case timeoutId w of Some t \<Rightarrow> clearTimeout t w | None \<Rightarrow> w);
                (t, w2) = setTimeout w1
            in w2\<lparr>timeoutId := Some t\<rparr>))"

text \<open>
  \<open>submit\<close> returns how its promise settles. When \<open>calculateMemory\<close> throws at line 90,
  the job is already stored under its identifier; the \<open>async\<close> function ends there, so
  the promise is rejected with the error, the memory estimate is as before and
  \<open>processingShedule\<close> is not called.
\<close>

datatype 'r promise = Resolved 'r | Rejected string

definition submit :: "'a env \<Rightarrow> 'a \<Rightarrow> 'a runtime \<Rightarrow> AckJobSubmitted option promise \<times> 'a runtime" where
  "submit env job w =
     (if shutDown w then (Rejected ''MicroBatcher is shutdown'', w)
      else (let (jid, w1) = generateUUID env w;
                w2 = w1\<lparr>jobs := AList.update jid job (jobs w1)\<rparr>
            in case calculateMemory env [job] of
                 Inl e \<Rightarrow> (Rejected e, w2)
               | Inr m \<Rightarrow>
                   (let w3 = w2\<lparr>currentMemory := currentMemory w2 + m\<rparr>;
                        w4 = processingShedule w3
                    in (Resolved (if returnAck w4
                                  then Some \<lparr>status = SUBMITTED, message = None, jobId = jid\<rparr>
                                  else None),
                        w4))))"

definition shutdown :: "'a runtime \<Rightarrow> 'a runtime" where
  "shutdown w =
     (let w1 = w\<lparr>shutDown := True\<rparr>;
          w2 = (case timeoutId w1 of Some t \<Rightarrow> clearTimeout t w1 | None \<Rightarrow> w1)
      in if length (jobs w2) > 0 then processJobs Shutdown w2
         else settle Shutdown None None w2)"

definition stop :: "'a runtime \<Rightarrow> 'a runtime" where
  "stop w =
     (let w1 = w\<lparr>shutDown := True\<rparr>;
          w2 = w1\<lparr>jobs := []\<rparr>
      in case timeoutId w2 of Some t \<Rightarrow> clearTimeout t w2 | None \<Rightarrow> w2)"

definition forceProcess :: "'a runtime \<Rightarrow> 'a runtime" where
  "forceProcess w = processJobs ForceProcess w"

definition jobCount :: "'a runtime \<Rightarrow> nat" where
  "jobCount w = (if isProcessing w then 0 else length (jobs w))"

definition jobStatus :: "'a runtime \<Rightarrow> string \<Rightarrow> AckJobSubmitted" where
  "jobStatus w jid =
     (if map_of (jobs w) jid \<noteq> None
      then \<lparr>status = SUBMITTED, message = None, jobId = jid\<rparr>
      else \<lparr>status = NOT_FOUND, message = None, jobId = jid\<rparr>)"

definition batcher_isMemoryLimitReached :: "'a env \<Rightarrow> 'a runtime \<Rightarrow> string + bool" where
  "batcher_isMemoryLimitReached env w =
     isMemoryLimitReached env (map snd (jobs w)) (memoryLimit w)"

section \<open>Runs of the instance\<close>

text \<open>
  What can happen to an instance: a call of a public method, the expiry of a timer, or
  the promise of a call of \<open>batchProcessor\<close> settling. Each runs the code of the class
  up to its next \<open>await\<close>; time itself is not modelled, so an armed timer may fire at
  any moment and a call of \<open>batchProcessor\<close> may settle at any moment, or never.
\<close>

datatype 'a event =
    Submit 'a
  | TimerFires nat
  | Settles nat "string + 'a JobResult list"
  | CallShutdown
  | CallStop
  | CallForceProcess

fun step :: "'a env \<Rightarrow> 'a event \<Rightarrow> 'a runtime \<Rightarrow> 'a runtime" where
  "step env (Submit job) w = snd (submit env job w)"
| "step env (TimerFires t) w =
     (if t \<in> timers w then processJobs Timer (w\<lparr>timers := timers w - {t}\<rparr>) else w)"
| "step env (Settles k outcome) w = processJobs_resume k outcome w"
| "step env CallShutdown w = shutdown w"
| "step env CallStop w = stop w"
| "step env CallForceProcess w = forceProcess w"

fun run :: "'a env \<Rightarrow> 'a event list \<Rightarrow> 'a runtime \<Rightarrow> 'a runtime" where
  "run env [] w = w"
| "run env (e # es) w = run env es (step env e w)"

text \<open>
  An instance is constructed and then lives through a list of events. \<open>launch\<close> is
  \<open>Inl\<close> when the constructor throws.
\<close>

definition launch :: "'a env \<Rightarrow> YaMicroBatcherConfig \<Rightarrow> 'a event list \<Rightarrow> string + 'a runtime" where
  "launch env config es =
     (case constructor config of
        Inl e \<Rightarrow> Inl e
      | Inr b \<Rightarrow> Inr (run env es (boot b)))"

text \<open>
  \<open>guarded env es w\<close>: along the run of \<open>es\<close> from \<open>w\<close>, \<open>forceProcess\<close> is only called
  while no batch-fire is in flight, and \<open>shutdown\<close> only while none is in flight or no
  job is pending.
\<close>

fun guarded :: "'a env \<Rightarrow> 'a event list \<Rightarrow> 'a runtime \<Rightarrow> bool" where
  "guarded env [] w = True"
| "guarded env (e # es) w =
     ((case e of
         CallForceProcess \<Rightarrow> inflight w = []
       | CallShutdown \<Rightarrow> inflight w = [] \<or> jobs w = []
       | _ \<Rightarrow> True)
      \<and> guarded env es (step env e w))"

text \<open>
  Three properties of the state that runs keep:
  \<^item> \<open>timers_owned\<close>: the only timer that can be armed is the one in \<open>timeoutId\<close>, and
    none is armed while \<open>isProcessing\<close> is set;
  \<^item> \<open>fires_numbered\<close>: the numbers of the fires in flight, and of the fires that a
    returned call awaited, are below \<open>nextFire\<close>;
  \<^item> \<open>single_flight\<close>: at most one fire is in flight, and \<open>isProcessing\<close> is set while
    it is.
\<close>

definition timers_owned :: "'a runtime \<Rightarrow> bool" where
  "timers_owned w \<longleftrightarrow>
     timers w \<subseteq> set_option (timeoutId w) \<and> (isProcessing w \<longrightarrow> timers w = {})"

definition fires_numbered :: "'a runtime \<Rightarrow> bool" where
  "fires_numbered w \<longleftrightarrow>
     (\<forall>k \<in> set (map fst (inflight w)). k < nextFire w)
     \<and> (\<forall>k. Some k \<in> set (map (fst \<circ> snd) (returned w)) \<longrightarrow> k < nextFire w)"

definition single_flight :: "'a runtime \<Rightarrow> bool" where
  "single_flight w \<longleftrightarrow>
     length (inflight w) \<le> 1 \<and> (inflight w \<noteq> [] \<longrightarrow> isProcessing w)"

text \<open>
  \<open>pending_on k who snapshot w\<close>: the call of \<open>processJobs\<close> made by \<open>who\<close> is suspended
  at \<open>await\<close> on the \<open>k\<close>-th fire with that snapshot, and no call that awaited fire \<open>k\<close>
  has returned.
\<close>

definition pending_on :: "nat \<Rightarrow> caller \<Rightarrow> 'a jsmap \<Rightarrow> 'a runtime \<Rightarrow> bool" where
  "pending_on k who snapshot w \<longleftrightarrow>
     k < nextFire w \<and> map_of (inflight w) k = Some (who, snapshot)
     \<and> Some k \<notin> set (map (fst \<circ> snd) (returned w))"

section \<open>Example instances\<close>

text \<open>
  Payloads are natural numbers, the \<open>n\<close>-th identifier is \<open>job-\<close> followed by \<open>n\<close>
  letters, and the serialisation of \<open>k\<close> jobs takes \<open>2 + 3 * k\<close> bytes.
  \<open>demo_config\<close> names a \<open>batchProcessor\<close> and asks for acknowledgements, so the
  constructor returns the instance \<open>demo_batcher bs bt\<close> (\<open>demo_constructed\<close> below), and
  \<open>demo bs es\<close> is such an instance after the events \<open>es\<close>.
\<close>

definition demo_env :: "nat env" where
  "demo_env = \<lparr>byteLength = (\<lambda>js. Inr (2 + 3 * length js)),
                randomUUID = (\<lambda>n. ''job-'' @ replicate n (CHR ''i''))\<rparr>"

definition demo_config :: "real option \<Rightarrow> real option \<Rightarrow> YaMicroBatcherConfig" where
  "demo_config bs bt =
     \<lparr>cfg_batchSize = bs, cfg_batchTimeout = bt, cfg_batchProcessor = True,
      cfg_returnAck = Some True, cfg_memoryLimit = None,
      cfg_autoProcessOnMemoryLimit = None, cfg_storePastJobs = None\<rparr>"

definition demo_batcher :: "real option \<Rightarrow> real option \<Rightarrow> nat YaMicroBatcher" where
  "demo_batcher bs bt = projr (constructor (demo_config bs bt))"

definition demo :: "real \<Rightarrow> nat event list \<Rightarrow> nat runtime" where
  "demo bs es = run demo_env es (boot (demo_batcher (Some bs) (Some 1000)))"

definition done_job :: "string \<Rightarrow> nat \<Rightarrow> nat JobResult" where
  "done_job jid job = \<lparr>status = PROCESSED, message = None, jobId = jid, result = Some job\<rparr>"

section \<open>Unfolding the model\<close>

lemmas demo_defs = demo_def demo_batcher_def launch_def constructor_def boot_def
  demo_config_def demo_env_def init_batchSize_def init_batchTimeout_def init_memoryLimit_def
  done_job_def

lemmas method_defs = submit_def generateUUID_def calculateMemory_def
  processingShedule_def triggers_def processJobs_def processJobs_resume_def setTimeout_def
  clearTimeout_def shutdown_def stop_def forceProcess_def jobCount_def jobStatus_def
  record_results_def

lemma demo_constructed: "constructor (demo_config bs bt) = Inr (demo_batcher bs bt)"
  by (simp add: demo_batcher_def constructor_def demo_config_def)


lemma launch_demo: "launch demo_env (demo_config (Some bs) (Some 1000)) es = Inr (demo bs es)"
  by (simp add: demo_def launch_def demo_constructed)

section \<open>The constructor's clamps\<close>

text \<open>
  C4. The claim: construction gives \<open>batchTimeout\<close> the default 1000 when the
  configuration omits it, clamps values above 100000 to 100000 and keeps every other
  value. The constructor's expression at line 64 does something else: with the field
  omitted it stores \<open>undefined\<close>, and every supplied value other than 0 (1000 and 5000
  here) becomes 100000.
\<close>

theorem batchTimeout_no_default_and_overwritten:
  "map_sum id batchTimeout (constructor (demo_config (Some 3) None) :: string + nat YaMicroBatcher)
     = Inr None
   \<and> map_sum id batchTimeout (constructor (demo_config (Some 3) (Some 1000)) :: string + nat YaMicroBatcher)
     = Inr (Some 100000)
   \<and> map_sum id batchTimeout (constructor (demo_config (Some 3) (Some 5000)) :: string + nat YaMicroBatcher)
     = Inr (Some 100000)"
  by (simp add: constructor_def demo_config_def init_batchTimeout_def)




section \<open>Submissions during a batch-fire\<close>

text \<open>
  C1. The claim: a job accepted by \<open>submit\<close> while the call of \<open>batchProcessor\<close> is
  outstanding remains pending after the fire completes and appears in exactly one later
  batch. With \<open>batchSize\<close> 1, job 7 fires at once; job 8 is accepted during the fire,
  acknowledged under \<open>job-i\<close> and stored in the fresh container. When the processor's
  promise is fulfilled, \<open>this.jobs.clear()\<close> at line 204 empties that fresh container:
  job 8 is gone, it was handed to no call of \<open>batchProcessor\<close>, nothing is in flight,
  and \<open>jobStatus\<close> no longer finds it.
\<close>

theorem late_job_dropped_by_clear:
  "fst (submit demo_env 8 (demo 1 [Submit 7]))
     = Resolved (Some \<lparr>status = SUBMITTED, message = None, jobId = ''job-i''\<rparr>)
   \<and> inflight (demo 1 [Submit 7, Submit 8]) = [(0, Schedule, [(''job-'', 7)])]
   \<and> jobs (demo 1 [Submit 7, Submit 8]) = [(''job-i'', 8)]
   \<and> jobs (demo 1 [Submit 7, Submit 8, Settles 0 (Inr [done_job ''job-'' 7])]) = []
   \<and> calls (demo 1 [Submit 7, Submit 8, Settles 0 (Inr [done_job ''job-'' 7])])
       = [[(''job-'', 7)]]
   \<and> inflight (demo 1 [Submit 7, Submit 8, Settles 0 (Inr [done_job ''job-'' 7])]) = []
   \<and> jobStatus (demo 1 [Submit 7, Submit 8, Settles 0 (Inr [done_job ''job-'' 7])]) ''job-i''
       = \<lparr>status = NOT_FOUND, message = None, jobId = ''job-i''\<rparr>"
  by (simp add: demo_defs method_defs)

section \<open>The processing flag after a failure\<close>

text \<open>
  C2. The claim: \<open>isProcessing\<close> is false again after a fire, also when
  \<open>batchProcessor\<close> raises. With \<open>batchSize\<close> 3, one job is submitted and
  \<open>forceProcess\<close> is called; the processor's promise is rejected with \<open>boom\<close>. The error
  reaches the caller of \<open>forceProcess\<close>, but \<open>await\<close> throws before line 205, so
  \<open>isProcessing\<close> stays true although nothing is in flight; \<open>jobCount\<close> then answers 0
  for a job submitted afterwards and no timer is armed for it.
\<close>

theorem flag_stays_set_after_rejection:
  "returned (demo 3 [Submit 7, CallForceProcess, Settles 0 (Inl ''boom'')])
     = [(ForceProcess, Some 0, Some ''boom'')]
   \<and> inflight (demo 3 [Submit 7, CallForceProcess, Settles 0 (Inl ''boom'')]) = []
   \<and> isProcessing (demo 3 [Submit 7, CallForceProcess, Settles 0 (Inl ''boom'')])
   \<and> jobs (demo 3 [Submit 7, CallForceProcess, Settles 0 (Inl ''boom''), Submit 8])
       = [(''job-i'', 8)]
   \<and> jobCount (demo 3 [Submit 7, CallForceProcess, Settles 0 (Inl ''boom''), Submit 8]) = 0
   \<and> timers (demo 3 [Submit 7, CallForceProcess, Settles 0 (Inl ''boom''), Submit 8]) = {}
   \<and> \<not> isProcessing (demo 3 [Submit 7, CallForceProcess, Settles 0 (Inr [done_job ''job-'' 7])])"
  by (simp add: demo_defs method_defs)

section \<open>Failures of unattended fires\<close>

text \<open>
  C5. The claim: a failure of \<open>batchProcessor\<close> in a fire started by the size, memory
  or timer trigger is passed to the error log and swallowed. The fire that
  \<open>processingShedule\<close> starts has a \<open>catch\<close> handler (first conjunct, \<open>batchSize\<close> 1).
  The timer callback has none: with \<open>batchSize\<close> 3 the job arms timer 0, the timer
  fires, the processor's promise is rejected with \<open>boom\<close>, nothing is logged and the
  rejection is left unhandled.
\<close>

theorem timer_fire_rejection_unhandled:
  "errorLog (demo 1 [Submit 7, Settles 0 (Inl ''boom'')]) = [''boom'']
   \<and> unhandled (demo 1 [Submit 7, Settles 0 (Inl ''boom'')]) = []
   \<and> timers (demo 3 [Submit 7]) = {0}
   \<and> inflight (demo 3 [Submit 7, TimerFires 0]) = [(0, Timer, [(''job-'', 7)])]
   \<and> errorLog (demo 3 [Submit 7, TimerFires 0, Settles 0 (Inl ''boom'')]) = []
   \<and> unhandled (demo 3 [Submit 7, TimerFires 0, Settles 0 (Inl ''boom'')]) = [''boom'']"
  by (simp add: demo_defs method_defs)

section \<open>Rejection after shutdown\<close>

text \<open>
  C8. When the shut-down flag is set, \<open>submit\<close> returns a promise rejected with the
  message \<open>MicroBatcher is shutdown\<close> and changes nothing: the whole state is the same
  afterwards, so no identifier was generated (\<open>uuidCalls\<close>), nothing was stored
  (\<open>jobs\<close>), the memory estimate did not grow (\<open>currentMemory\<close>) and no trigger was
  evaluated (\<open>timers\<close>, \<open>calls\<close>, \<open>inflight\<close>).
\<close>

theorem submit_rejected_when_shut_down:
  "shutDown w \<Longrightarrow> submit env job w = (Rejected ''MicroBatcher is shutdown'', w)"
  by (simp add: submit_def)

theorem submit_rejected_when_shut_down_witness:
  "shutDown (demo 3 [Submit 7, CallStop])
   \<and> submit demo_env 8 (demo 3 [Submit 7, CallStop])
       = (Rejected ''MicroBatcher is shutdown'', demo 3 [Submit 7, CallStop])"
proof -
  have h: "shutDown (demo 3 [Submit 7, CallStop])"
    by (simp add: demo_defs method_defs)
  show ?thesis
    using h submit_rejected_when_shut_down [OF h, of demo_env 8] by simp
qed

section \<open>The acknowledgement names the stored job\<close>

text \<open>
  When \<open>submit\<close> is called on an instance that is not shut down and returns
  acknowledgements, the payload can be serialised, and no batch-fire is started (one is
  already outstanding, or after the insertion the condition of line 104 is false), then
  in the state in which the synchronous part of \<open>submit\<close> ends the job is stored under
  the identifier of the acknowledgement and \<open>jobStatus\<close> finds it.
\<close>

lemma submit_stores_under_ack_jobId:
  assumes "\<not> shutDown w" and "returnAck w" and "calculateMemory env [job] = Inr m"
    and "isProcessing w
         \<or> \<not> triggers (w\<lparr>uuidCalls := Suc (uuidCalls w),
                          jobs := AList.update (randomUUID env (uuidCalls w)) job (jobs w),
                          currentMemory := currentMemory w + m\<rparr>)"
  shows "fst (submit env job w)
           = Resolved (Some \<lparr>status = SUBMITTED, message = None,
                             jobId = randomUUID env (uuidCalls w)\<rparr>)
       \<and> map_of (jobs (snd (submit env job w))) (randomUUID env (uuidCalls w)) = Some job
       \<and> jobStatus (snd (submit env job w)) (randomUUID env (uuidCalls w))
           = \<lparr>status = SUBMITTED, message = None, jobId = randomUUID env (uuidCalls w)\<rparr>"
  using assms
  by (auto simp: submit_def generateUUID_def processingShedule_def setTimeout_def
        clearTimeout_def jobStatus_def update_Some_unfold Let_def split: option.splits)

text \<open>
  C10. The claim: when \<open>submit\<close> starts no batch-fire, \<open>jobStatus(ack.jobId)\<close> called
  right after the promise of \<open>submit\<close> is fulfilled answers \<open>SUBMITTED\<close>. With
  \<open>batchSize\<close> 3, job 7 is submitted and \<open>forceProcess\<close> starts fire 0. Job 8 is then
  submitted: the instance is not shut down, one job is pending after the insertion, the
  memory trigger is off, no fire is started, and the acknowledgement names \<open>job-i\<close>,
  under which job 8 is stored. The promise of \<open>submit\<close> is fulfilled with a promise
  (\<open>Promise.resolve\<close> at line 93), which takes further microtasks; a processor whose
  promise is already fulfilled, as the one of the tests, lets lines 204 and 205 run
  before the caller's continuation. \<open>this.jobs.clear()\<close> then removes job 8, and
  \<open>jobStatus\<close> of the acknowledged identifier answers \<open>NOT_FOUND\<close>.
\<close>

theorem acknowledged_job_not_found:
  "\<not> shutDown (demo 3 [Submit 7, CallForceProcess])
   \<and> returnAck (demo 3 [Submit 7, CallForceProcess])
   \<and> inflight (demo 3 [Submit 7, CallForceProcess]) = [(0, ForceProcess, [(''job-'', 7)])]
   \<and> fst (submit demo_env 8 (demo 3 [Submit 7, CallForceProcess]))
       = Resolved (Some \<lparr>status = SUBMITTED, message = None, jobId = ''job-i''\<rparr>)
   \<and> jobs (demo 3 [Submit 7, CallForceProcess, Submit 8]) = [(''job-i'', 8)]
   \<and> \<not> triggers (demo 3 [Submit 7, CallForceProcess, Submit 8])
   \<and> inflight (demo 3 [Submit 7, CallForceProcess, Submit 8])
       = [(0, ForceProcess, [(''job-'', 7)])]
   \<and> jobStatus (demo 3 [Submit 7, CallForceProcess, Submit 8,
                          Settles 0 (Inr [done_job ''job-'' 7])]) ''job-i''
       = \<lparr>status = NOT_FOUND, message = None, jobId = ''job-i''\<rparr>
   \<and> calls (demo 3 [Submit 7, CallForceProcess, Submit 8,
                      Settles 0 (Inr [done_job ''job-'' 7])]) = [[(''job-'', 7)]]"
  by (simp add: demo_defs method_defs)

section \<open>What the methods change\<close>

lemma run_append: "run env (xs @ ys) w = run env ys (run env xs w)"
  by (induction xs arbitrary: w) simp_all

lemma settle_fields [simp]:
  "timers (settle who k r w) = timers w"
  "timeoutId (settle who k r w) = timeoutId w"
  "isProcessing (settle who k r w) = isProcessing w"
  "shutDown (settle who k r w) = shutDown w"
  "jobs (settle who k r w) = jobs w"
  "calls (settle who k r w) = calls w"
  "inflight (settle who k r w) = inflight w"
  "nextFire (settle who k r w) = nextFire w"
  by (cases "(who, k, r, w)" rule: settle.cases; simp)+

lemma settle_returned:
  "returned (settle who k r w) =
     (if who = ForceProcess \<or> who = Shutdown then returned w @ [(who, k, r)] else returned w)"
  by (cases "(who, k, r, w)" rule: settle.cases; simp)

lemma processJobs_empty:
  "jobs w = [] \<Longrightarrow>
   processJobs who w =
     settle who None None
       (w\<lparr>isProcessing := False, timers := timers w - set_option (timeoutId w),
          timeoutId := None, currentMemory := 0\<rparr>)"
  by (cases w) (auto simp: processJobs_def clearTimeout_def Let_def split: option.splits)

lemma processJobs_nonempty:
  "jobs w \<noteq> [] \<Longrightarrow>
   processJobs who w =
     w\<lparr>isProcessing := True, timers := timers w - set_option (timeoutId w),
       timeoutId := None, jobs := [], currentMemory := 0,
       calls := calls w @ [jobs w],
       inflight := inflight w @ [(nextFire w, who, jobs w)],
       nextFire := Suc (nextFire w)\<rparr>"
  by (cases w) (auto simp: processJobs_def clearTimeout_def Let_def split: option.splits)

lemma shutdown_empty:
  "jobs w = [] \<Longrightarrow>
   shutdown w =
     settle Shutdown None None
       (w\<lparr>shutDown := True, timers := timers w - set_option (timeoutId w)\<rparr>)"
  by (cases w) (auto simp: shutdown_def clearTimeout_def Let_def split: option.splits)

lemma shutdown_nonempty:
  "jobs w \<noteq> [] \<Longrightarrow>
   shutdown w =
     w\<lparr>shutDown := True, isProcessing := True,
       timers := timers w - set_option (timeoutId w),
       timeoutId := None, jobs := [], currentMemory := 0,
       calls := calls w @ [jobs w],
       inflight := inflight w @ [(nextFire w, Shutdown, jobs w)],
       nextFire := Suc (nextFire w)\<rparr>"
  by (cases w) (auto simp: shutdown_def clearTimeout_def processJobs_nonempty Let_def split: option.splits)

lemma stop_eq:
  "stop w = w\<lparr>shutDown := True, jobs := [], timers := timers w - set_option (timeoutId w)\<rparr>"
  by (cases w) (auto simp: stop_def clearTimeout_def Let_def split: option.splits)

lemma processingShedule_arm:
  "\<not> isProcessing w \<Longrightarrow> \<not> triggers w \<Longrightarrow>
   processingShedule w =
     w\<lparr>timers := insert (nextTimer w) (timers w - set_option (timeoutId w)),
       nextTimer := Suc (nextTimer w), timeoutId := Some (nextTimer w)\<rparr>"
  by (cases w) (auto simp: processingShedule_def setTimeout_def clearTimeout_def Let_def split: option.splits)

lemma submit_open:
  "\<not> shutDown w \<Longrightarrow> calculateMemory env [job] = Inr m \<Longrightarrow>
   snd (submit env job w) =
     processingShedule
       (w\<lparr>uuidCalls := Suc (uuidCalls w),
          jobs := AList.update (randomUUID env (uuidCalls w)) job (jobs w),
          currentMemory := currentMemory w + m\<rparr>)"
  by (simp add: submit_def generateUUID_def Let_def)

lemma submit_throws:
  "\<not> shutDown w \<Longrightarrow> calculateMemory env [job] = Inl e \<Longrightarrow>
   snd (submit env job w) =
     w\<lparr>uuidCalls := Suc (uuidCalls w),
       jobs := AList.update (randomUUID env (uuidCalls w)) job (jobs w)\<rparr>"
  by (simp add: submit_def generateUUID_def Let_def)

section \<open>Invariants of runs\<close>

lemma timers_owned_boot: "timers_owned (boot b)"
  by (simp add: timers_owned_def boot_def)

lemma fires_numbered_boot: "fires_numbered (boot b)"
  by (simp add: fires_numbered_def boot_def)

lemma single_flight_boot: "single_flight (boot b)"
  by (simp add: single_flight_def boot_def)

lemma timers_owned_processJobs: "timers_owned w \<Longrightarrow> timers_owned (processJobs who w)"
  by (cases "jobs w = []")
     (auto simp: processJobs_empty processJobs_nonempty timers_owned_def)

lemma timers_owned_processingShedule:
  "timers_owned w \<Longrightarrow> timers_owned (processingShedule w)"
proof (cases "isProcessing w \<or> triggers w")
  case True
  assume "timers_owned w"
  then show ?thesis
    using True by (auto simp: processingShedule_def timers_owned_processJobs)
next
  case False
  assume "timers_owned w"
  then show ?thesis
    using False by (auto simp: processingShedule_arm timers_owned_def)
qed

lemma timers_owned_step: "timers_owned w \<Longrightarrow> timers_owned (step env e w)"
proof (cases e)
  case (Submit job)
  assume a: "timers_owned w"
  show ?thesis
  proof (cases "shutDown w")
    case True
    then show ?thesis using a by (simp add: Submit submit_def)
  next
    case False
    show ?thesis
    proof (cases "calculateMemory env [job]")
      case (Inl e)
      then show ?thesis
        using False a by (simp add: Submit submit_throws timers_owned_def)
    next
      case (Inr m)
      from a have "timers_owned
         (w\<lparr>uuidCalls := Suc (uuidCalls w),
            jobs := AList.update (randomUUID env (uuidCalls w)) job (jobs w),
            currentMemory := currentMemory w + m\<rparr>)"
        by (simp add: timers_owned_def)
      then show ?thesis
        using False Inr by (simp add: Submit submit_open timers_owned_processingShedule)
    qed
  qed
next
  case (TimerFires t)
  assume "timers_owned w"
  then have "timers_owned (w\<lparr>timers := timers w - {t}\<rparr>)"
    by (auto simp: timers_owned_def)
  then show ?thesis
    unfolding TimerFires using \<open>timers_owned w\<close> by (simp add: timers_owned_processJobs)
next
  case (Settles k outcome)
  assume "timers_owned w"
  then show ?thesis
    unfolding Settles
    by (auto simp: processJobs_resume_def Let_def timers_owned_def
          split: option.splits sum.splits)
next
  case CallShutdown
  assume "timers_owned w"
  then show ?thesis
    unfolding CallShutdown
    by (cases "jobs w = []") (auto simp: shutdown_empty shutdown_nonempty timers_owned_def)
next
  case CallStop
  assume "timers_owned w"
  then show ?thesis
    unfolding CallStop by (auto simp: stop_eq timers_owned_def)
next
  case CallForceProcess
  assume "timers_owned w"
  then show ?thesis
    unfolding CallForceProcess by (simp add: forceProcess_def timers_owned_processJobs)
qed

lemma timers_owned_run: "timers_owned w \<Longrightarrow> timers_owned (run env es w)"
  by (induction es arbitrary: w) (simp_all add: timers_owned_step)

lemma launched_timers_owned: "launch env config es = Inr w \<Longrightarrow> timers_owned w"
  by (auto simp: launch_def timers_owned_run timers_owned_boot split: sum.splits)

lemma fires_numbered_processJobs: "fires_numbered w \<Longrightarrow> fires_numbered (processJobs who w)"
  by (cases "jobs w = []")
     (auto simp: processJobs_empty processJobs_nonempty fires_numbered_def settle_returned
        less_Suc_eq)

lemma fires_numbered_processingShedule:
  "fires_numbered w \<Longrightarrow> fires_numbered (processingShedule w)"
proof (cases "isProcessing w \<or> triggers w")
  case True
  assume "fires_numbered w"
  then show ?thesis
    using True by (auto simp: processingShedule_def fires_numbered_processJobs)
next
  case False
  assume "fires_numbered w"
  then show ?thesis
    using False by (simp add: processingShedule_arm fires_numbered_def)
qed


lemma fires_numbered_resume:
  assumes "fires_numbered w"
  shows "fires_numbered (processJobs_resume k outcome w)"
proof (cases "map_of (inflight w) k")
  case None
  then show ?thesis using assms by (simp add: processJobs_resume_def)
next
  case (Some p)
  then have "k \<in> set (map fst (inflight w))"
    by (metis map_of_eq_None_iff option.distinct(1) set_map)
  with assms have k: "k < nextFire w" by (auto simp: fires_numbered_def)
  have d: "\<forall>j \<in> set (map fst (AList.delete k (inflight w))). j < nextFire w"
    using assms by (auto simp: fires_numbered_def AList.delete_eq)
  show ?thesis
    using assms Some k d
    by (cases p; cases outcome)
       (auto simp: processJobs_resume_def fires_numbered_def settle_returned)
qed

lemma fires_numbered_step: "fires_numbered w \<Longrightarrow> fires_numbered (step env e w)"
proof (cases e)
  case (Submit job)
  assume a: "fires_numbered w"
  show ?thesis
  proof (cases "shutDown w")
    case True
    then show ?thesis using a by (simp add: Submit submit_def)
  next
    case False
    show ?thesis
    proof (cases "calculateMemory env [job]")
      case (Inl e)
      then show ?thesis
        using False a by (simp add: Submit submit_throws fires_numbered_def)
    next
      case (Inr m)
      from a have "fires_numbered
         (w\<lparr>uuidCalls := Suc (uuidCalls w),
            jobs := AList.update (randomUUID env (uuidCalls w)) job (jobs w),
            currentMemory := currentMemory w + m\<rparr>)"
        by (simp add: fires_numbered_def)
      then show ?thesis
        using False Inr by (simp add: Submit submit_open fires_numbered_processingShedule)
    qed
  qed
next
  case (TimerFires t)
  assume "fires_numbered w"
  then have "fires_numbered (w\<lparr>timers := timers w - {t}\<rparr>)"
    by (simp add: fires_numbered_def)
  then show ?thesis
    unfolding TimerFires using \<open>fires_numbered w\<close> by (simp add: fires_numbered_processJobs)
next
  case (Settles k outcome)
  assume "fires_numbered w"
  then show ?thesis
    unfolding Settles by (simp add: fires_numbered_resume)
next
  case CallShutdown
  assume "fires_numbered w"
  then show ?thesis
    unfolding CallShutdown
    by (cases "jobs w = []")
       (auto simp: shutdown_empty shutdown_nonempty fires_numbered_def settle_returned
          less_Suc_eq)
next
  case CallStop
  assume "fires_numbered w"
  then show ?thesis
    unfolding CallStop by (simp add: stop_eq fires_numbered_def)
next
  case CallForceProcess
  assume "fires_numbered w"
  then show ?thesis
    unfolding CallForceProcess by (simp add: forceProcess_def fires_numbered_processJobs)
qed

lemma fires_numbered_run: "fires_numbered w \<Longrightarrow> fires_numbered (run env es w)"
  by (induction es arbitrary: w) (simp_all add: fires_numbered_step)

lemma launched_fires_numbered: "launch env config es = Inr w \<Longrightarrow> fires_numbered w"
  by (auto simp: launch_def fires_numbered_run fires_numbered_boot split: sum.splits)

section \<open>A suspended call stays suspended until its fire settles\<close>

lemma pending_on_processJobs:
  "pending_on k who snapshot w \<Longrightarrow> pending_on k who snapshot (processJobs c w)"
  by (cases "jobs w = []")
     (auto simp: processJobs_empty processJobs_nonempty pending_on_def settle_returned
        map_add_Some_iff)

lemma pending_on_processingShedule:
  "pending_on k who snapshot w \<Longrightarrow> pending_on k who snapshot (processingShedule w)"
proof (cases "isProcessing w \<or> triggers w")
  case True
  assume "pending_on k who snapshot w"
  then show ?thesis
    using True by (auto simp: processingShedule_def pending_on_processJobs)
next
  case False
  assume "pending_on k who snapshot w"
  then show ?thesis
    using False by (simp add: processingShedule_arm pending_on_def)
qed

lemma pending_on_resume_other:
  assumes "pending_on k who snapshot w" and "j \<noteq> k"
  shows "pending_on k who snapshot (processJobs_resume j outcome w)"
proof (cases "map_of (inflight w) j")
  case None
  then show ?thesis using assms by (simp add: processJobs_resume_def)
next
  case (Some p)
  have "map_of (AList.delete j (inflight w)) k = map_of (inflight w) k"
    using assms(2) by (simp add: delete_conv')
  then show ?thesis
    using assms Some
    by (cases p; cases outcome)
       (auto simp: processJobs_resume_def pending_on_def settle_returned)
qed

lemma pending_on_step:
  assumes "pending_on k who snapshot w" and "\<forall>outcome. e \<noteq> Settles k outcome"
  shows "pending_on k who snapshot (step env e w)"
proof (cases e)
  case (Submit job)
  show ?thesis
  proof (cases "shutDown w")
    case True
    then show ?thesis using assms by (simp add: Submit submit_def)
  next
    case False
    show ?thesis
    proof (cases "calculateMemory env [job]")
      case (Inl e)
      then show ?thesis
        using False assms by (simp add: Submit submit_throws pending_on_def)
    next
      case (Inr m)
      from assms have "pending_on k who snapshot
         (w\<lparr>uuidCalls := Suc (uuidCalls w),
            jobs := AList.update (randomUUID env (uuidCalls w)) job (jobs w),
            currentMemory := currentMemory w + m\<rparr>)"
        by (simp add: pending_on_def)
      then show ?thesis
        using False Inr by (simp add: Submit submit_open pending_on_processingShedule)
    qed
  qed
next
  case (TimerFires t)
  from assms have "pending_on k who snapshot (w\<lparr>timers := timers w - {t}\<rparr>)"
    by (simp add: pending_on_def)
  then show ?thesis
    unfolding TimerFires using assms by (simp add: pending_on_processJobs)
next
  case (Settles j outcome)
  with assms have "j \<noteq> k" by auto
  then show ?thesis
    unfolding Settles using assms by (simp add: pending_on_resume_other)
next
  case CallShutdown
  show ?thesis
    unfolding CallShutdown using assms
    by (cases "jobs w = []")
       (auto simp: shutdown_empty shutdown_nonempty pending_on_def settle_returned
          map_add_Some_iff)
next
  case CallStop
  show ?thesis
    unfolding CallStop using assms by (simp add: stop_eq pending_on_def)
next
  case CallForceProcess
  show ?thesis
    unfolding CallForceProcess using assms by (simp add: forceProcess_def pending_on_processJobs)
qed

lemma pending_on_run:
  "pending_on k who snapshot w \<Longrightarrow> \<forall>e \<in> set es. \<forall>outcome. e \<noteq> Settles k outcome
   \<Longrightarrow> pending_on k who snapshot (run env es w)"
  by (induction es arbitrary: w) (simp_all add: pending_on_step)

lemma pending_on_resume:
  assumes "pending_on k who snapshot w" and "who = ForceProcess \<or> who = Shutdown"
  shows "returned (processJobs_resume k (Inr results) w) = returned w @ [(who, Some k, None)]"
    and "returned (processJobs_resume k (Inl e) w) = returned w @ [(who, Some k, Some e)]"
  using assms by (auto simp: processJobs_resume_def pending_on_def settle_returned)

lemma pending_on_shutdown:
  assumes "fires_numbered w" and "jobs w \<noteq> []"
  shows "pending_on (nextFire w) Shutdown (jobs w) (shutdown w)"
proof -
  have "nextFire w \<notin> set (map fst (inflight w))"
    using assms(1) by (auto simp: fires_numbered_def)
  then have "map_of (inflight w) (nextFire w) = None"
    by (simp add: map_of_eq_None_iff)
  moreover have "Some (nextFire w) \<notin> set (map (fst \<circ> snd) (returned w))"
    using assms(1) by (auto simp: fires_numbered_def)
  ultimately show ?thesis
    using assms(2) by (simp add: shutdown_nonempty pending_on_def map_add_def)
qed

section \<open>Hard stop\<close>

lemma stopped_step:
  assumes "shutDown w" and "jobs w = []"
  shows "shutDown (step env e w) \<and> jobs (step env e w) = [] \<and> calls (step env e w) = calls w"
proof (cases e)
  case (Submit job)
  then show ?thesis using assms by (simp add: submit_def)
next
  case (TimerFires t)
  then show ?thesis using assms by (simp add: processJobs_empty)
next
  case (Settles k outcome)
  then show ?thesis
    using assms
    by (auto simp: processJobs_resume_def Let_def split: option.splits sum.splits)
next
  case CallShutdown
  then show ?thesis using assms by (simp add: shutdown_empty)
next
  case CallStop
  then show ?thesis using assms by (simp add: stop_eq)
next
  case CallForceProcess
  then show ?thesis using assms by (simp add: forceProcess_def processJobs_empty)
qed

lemma stopped_run:
  "shutDown w \<Longrightarrow> jobs w = [] \<Longrightarrow>
   shutDown (run env es w) \<and> jobs (run env es w) = [] \<and> calls (run env es w) = calls w"
proof (induction es arbitrary: w)
  case Nil
  then show ?case by simp
next
  case (Cons e es)
  from stopped_step [OF Cons.prems, of env e]
  have s: "shutDown (step env e w)" "jobs (step env e w) = []"
    "calls (step env e w) = calls w" by simp_all
  from Cons.IH [OF s(1) s(2)] s(3) show ?case by simp
qed

text \<open>
  C7. In every state, \<open>stop\<close> sets the shut-down flag, replaces the pending jobs by an
  empty container, calls \<open>batchProcessor\<close> for nothing (\<open>calls\<close> and \<open>inflight\<close> are as
  before) and clears the timer in \<open>timeoutId\<close>, which in every state that a constructed
  instance reaches is the only timer; \<open>jobCount\<close> is 0 afterwards. Whatever happens
  after \<open>stop\<close>, no job is pending and \<open>batchProcessor\<close> is never called again, so the
  discarded jobs are never handed to it.
\<close>

theorem stop_discards_pending:
  "shutDown (stop w) \<and> jobs (stop w) = [] \<and> jobCount (stop w) = 0
   \<and> calls (stop w) = calls w \<and> inflight (stop w) = inflight w
   \<and> timers (stop w) = timers w - set_option (timeoutId w)
   \<and> (\<forall>config es. launch env config es = Inr w \<longrightarrow> timers (stop w) = {})
   \<and> (\<forall>es'. calls (run env es' (stop w)) = calls w \<and> jobs (run env es' (stop w)) = [])"
proof -
  have a: "shutDown (stop w)" "jobs (stop w) = []" "calls (stop w) = calls w"
    "inflight (stop w) = inflight w" "timers (stop w) = timers w - set_option (timeoutId w)"
    by (simp_all add: stop_eq)
  have b: "jobCount (stop w) = 0"
    by (simp add: jobCount_def a)
  have c: "timers (stop w) = {}" if "launch env config es = Inr w" for config es
    using launched_timers_owned [OF that] by (auto simp: a timers_owned_def)
  have d: "calls (run env es' (stop w)) = calls w \<and> jobs (run env es' (stop w)) = []" for es'
    using stopped_run [OF a(1) a(2), of env es'] by (simp add: a)
  show ?thesis using a b c d by blast
qed

theorem stop_discards_pending_witness:
  "launch demo_env (demo_config (Some 3) (Some 1000)) [Submit 7] = Inr (demo 3 [Submit 7])
   \<and> jobs (demo 3 [Submit 7]) = [(''job-'', 7)] \<and> timers (demo 3 [Submit 7]) = {0}
   \<and> shutDown (stop (demo 3 [Submit 7])) \<and> jobs (stop (demo 3 [Submit 7])) = []
   \<and> jobCount (stop (demo 3 [Submit 7])) = 0 \<and> timers (stop (demo 3 [Submit 7])) = {}
   \<and> calls (run demo_env [TimerFires 0, Submit 8, CallForceProcess] (stop (demo 3 [Submit 7]))) = []"
proof -
  note t = stop_discards_pending [of "demo 3 [Submit 7]" demo_env]
  have l: "launch demo_env (demo_config (Some 3) (Some 1000)) [Submit 7] = Inr (demo 3 [Submit 7])"
    by (rule launch_demo)
  have e: "jobs (demo 3 [Submit 7]) = [(''job-'', 7)]" "timers (demo 3 [Submit 7]) = {0}"
    "calls (demo 3 [Submit 7]) = []"
    by (simp_all add: demo_defs method_defs)
  from t have a: "shutDown (stop (demo 3 [Submit 7]))" "jobs (stop (demo 3 [Submit 7])) = []"
    "jobCount (stop (demo 3 [Submit 7])) = 0"
    by blast+
  from t l have b: "timers (stop (demo 3 [Submit 7])) = {}"
    by blast
  from t have c: "calls (run demo_env [TimerFires 0, Submit 8, CallForceProcess]
                        (stop (demo 3 [Submit 7]))) = calls (demo 3 [Submit 7])"
    by blast
  show ?thesis
    using l e a b c by simp
qed

section \<open>Graceful shutdown\<close>

text \<open>
  C6. For every state \<open>w\<close> that a constructed instance reaches, \<open>shutdown\<close> sets the
  shut-down flag and leaves no timer armed. With no pending job it calls
  \<open>batchProcessor\<close> for nothing and its promise is fulfilled. With pending jobs it makes
  exactly one call of \<open>batchProcessor\<close>, with all of them, and suspends on that fire:
  its promise is not settled when \<open>shutdown\<close> returns, stays unsettled through every
  sequence of events that does not settle that fire, and is fulfilled (or rejected with
  the processor's error) by the event that settles it.
\<close>

theorem shutdown_drains_pending:
  assumes "launch env config es = Inr w"
  shows "shutDown (shutdown w) \<and> timers (shutdown w) = {}
     \<and> (jobs w = [] \<longrightarrow>
          calls (shutdown w) = calls w \<and> inflight (shutdown w) = inflight w
          \<and> returned (shutdown w) = returned w @ [(Shutdown, None, None)])
     \<and> (jobs w \<noteq> [] \<longrightarrow>
          calls (shutdown w) = calls w @ [jobs w]
          \<and> inflight (shutdown w) = inflight w @ [(nextFire w, Shutdown, jobs w)]
          \<and> jobs (shutdown w) = []
          \<and> returned (shutdown w) = returned w
          \<and> (\<forall>es'. (\<forall>e \<in> set es'. \<forall>outcome. e \<noteq> Settles (nextFire w) outcome) \<longrightarrow>
                pending_on (nextFire w) Shutdown (jobs w) (run env es' (shutdown w))
                \<and> (\<forall>results.
                     returned (run env (es' @ [Settles (nextFire w) (Inr results)]) (shutdown w))
                     = returned (run env es' (shutdown w)) @ [(Shutdown, Some (nextFire w), None)])
                \<and> (\<forall>e.
                     returned (run env (es' @ [Settles (nextFire w) (Inl e)]) (shutdown w))
                     = returned (run env es' (shutdown w))
                       @ [(Shutdown, Some (nextFire w), Some e)])))"
proof -
  have t: "timers w \<subseteq> set_option (timeoutId w)"
    using launched_timers_owned [OF assms] by (simp add: timers_owned_def)
  have n: "fires_numbered w"
    by (rule launched_fires_numbered [OF assms])
  have a: "shutDown (shutdown w) \<and> timers (shutdown w) = {}"
    using t by (cases "jobs w = []") (auto simp: shutdown_empty shutdown_nonempty)
  have b: "calls (shutdown w) = calls w \<and> inflight (shutdown w) = inflight w
      \<and> returned (shutdown w) = returned w @ [(Shutdown, None, None)]" if "jobs w = []"
    using that by (simp add: shutdown_empty settle_returned)
  have c: "calls (shutdown w) = calls w @ [jobs w]
      \<and> inflight (shutdown w) = inflight w @ [(nextFire w, Shutdown, jobs w)]
      \<and> jobs (shutdown w) = [] \<and> returned (shutdown w) = returned w" if "jobs w \<noteq> []"
    using that by (simp add: shutdown_nonempty)
  have d: "pending_on (nextFire w) Shutdown (jobs w) (run env es' (shutdown w))
      \<and> (\<forall>results.
            returned (run env (es' @ [Settles (nextFire w) (Inr results)]) (shutdown w))
            = returned (run env es' (shutdown w)) @ [(Shutdown, Some (nextFire w), None)])
      \<and> (\<forall>e.
            returned (run env (es' @ [Settles (nextFire w) (Inl e)]) (shutdown w))
            = returned (run env es' (shutdown w)) @ [(Shutdown, Some (nextFire w), Some e)])"
    if ne: "jobs w \<noteq> []"
      and es': "\<forall>e \<in> set es'. \<forall>outcome. e \<noteq> Settles (nextFire w) outcome" for es'
  proof -
    have p: "pending_on (nextFire w) Shutdown (jobs w) (run env es' (shutdown w))"
      by (rule pending_on_run [OF pending_on_shutdown [OF n ne] es'])
    show ?thesis
      using p pending_on_resume [OF p] by (simp add: run_append)
  qed
  show ?thesis using a b c d by blast
qed

theorem shutdown_drains_pending_witness:
  "launch demo_env (demo_config (Some 3) (Some 1000)) [Submit 7] = Inr (demo 3 [Submit 7])
   \<and> jobs (demo 3 [Submit 7]) \<noteq> [] \<and> nextFire (demo 3 [Submit 7]) = 0
   \<and> shutDown (shutdown (demo 3 [Submit 7]))
   \<and> timers (shutdown (demo 3 [Submit 7])) = {}
   \<and> calls (shutdown (demo 3 [Submit 7])) = [[(''job-'', 7)]]
   \<and> inflight (shutdown (demo 3 [Submit 7])) = [(0, Shutdown, [(''job-'', 7)])]
   \<and> returned (shutdown (demo 3 [Submit 7])) = []
   \<and> returned (run demo_env [CallForceProcess] (shutdown (demo 3 [Submit 7])))
       = [(ForceProcess, None, None)]
   \<and> returned (run demo_env ([CallForceProcess] @ [Settles 0 (Inr [])])
                 (shutdown (demo 3 [Submit 7])))
       = [(ForceProcess, None, None), (Shutdown, Some 0, None)]"
proof -
  note t = shutdown_drains_pending [OF launch_demo, of 3 "[Submit 7]"]
  have l: "launch demo_env (demo_config (Some 3) (Some 1000)) [Submit 7] = Inr (demo 3 [Submit 7])"
    by (rule launch_demo)
  have e: "jobs (demo 3 [Submit 7]) = [(''job-'', 7)]" "nextFire (demo 3 [Submit 7]) = 0"
    "calls (demo 3 [Submit 7]) = []" "inflight (demo 3 [Submit 7]) = []"
    "returned (demo 3 [Submit 7]) = []"
    by (simp_all add: demo_defs method_defs)
  have ne: "jobs (demo 3 [Submit 7]) \<noteq> []"
    by (simp add: e)
  have q: "\<forall>e \<in> set [CallForceProcess :: nat event]. \<forall>outcome.
             e \<noteq> Settles (nextFire (demo 3 [Submit 7])) outcome"
    by simp
  have f: "returned (run demo_env [CallForceProcess] (shutdown (demo 3 [Submit 7])))
       = [(ForceProcess, None, None)]"
    by (simp add: demo_defs method_defs)
  from t have a: "shutDown (shutdown (demo 3 [Submit 7]))"
    "timers (shutdown (demo 3 [Submit 7])) = {}"
    by blast+
  from t ne have b: "calls (shutdown (demo 3 [Submit 7]))
        = calls (demo 3 [Submit 7]) @ [jobs (demo 3 [Submit 7])]"
    "inflight (shutdown (demo 3 [Submit 7]))
        = inflight (demo 3 [Submit 7])
          @ [(nextFire (demo 3 [Submit 7]), Shutdown, jobs (demo 3 [Submit 7]))]"
    "returned (shutdown (demo 3 [Submit 7])) = returned (demo 3 [Submit 7])"
    by blast+
  from t ne q have c: "returned (run demo_env
          ([CallForceProcess] @ [Settles (nextFire (demo 3 [Submit 7])) (Inr [])])
          (shutdown (demo 3 [Submit 7])))
       = returned (run demo_env [CallForceProcess] (shutdown (demo 3 [Submit 7])))
         @ [(Shutdown, Some (nextFire (demo 3 [Submit 7])), None)]"
    by blast
  show ?thesis
    using l a b c f by (simp add: e)
qed

section \<open>One fire at a time\<close>

text \<open>
  C3, as stated: no operation starts a second batch-fire while one is outstanding. With
  \<open>batchSize\<close> 1, job 7 fires at once and job 8 is accepted during the fire. Both
  \<open>forceProcess\<close> and \<open>shutdown\<close> then call \<open>processJobs\<close>, which does not look at
  \<open>isProcessing\<close>: \<open>batchProcessor\<close> is called a second time while its first call is
  outstanding. Called during the fire with nothing pending, \<open>forceProcess\<close> starts no
  fire itself but resets \<open>isProcessing\<close> at line 192, so that the trigger evaluation of
  the next \<open>submit\<close> starts the second fire.
\<close>

theorem second_fire_while_processing:
  "isProcessing (demo 1 [Submit 7, Submit 8])
   \<and> inflight (demo 1 [Submit 7, Submit 8]) = [(0, Schedule, [(''job-'', 7)])]
   \<and> inflight (demo 1 [Submit 7, Submit 8, CallForceProcess])
       = [(0, Schedule, [(''job-'', 7)]), (1, ForceProcess, [(''job-i'', 8)])]
   \<and> inflight (demo 1 [Submit 7, Submit 8, CallShutdown])
       = [(0, Schedule, [(''job-'', 7)]), (1, Shutdown, [(''job-i'', 8)])]
   \<and> inflight (demo 1 [Submit 7, CallForceProcess]) = [(0, Schedule, [(''job-'', 7)])]
   \<and> \<not> isProcessing (demo 1 [Submit 7, CallForceProcess])
   \<and> inflight (demo 1 [Submit 7, CallForceProcess, Submit 8])
       = [(0, Schedule, [(''job-'', 7)]), (1, Schedule, [(''job-i'', 8)])]"
  by (simp add: demo_defs method_defs)

lemma single_flight_processJobs:
  "inflight w = [] \<Longrightarrow> single_flight (processJobs who w)"
  by (cases "jobs w = []")
     (simp_all add: processJobs_empty processJobs_nonempty single_flight_def)

lemma single_flight_processingShedule:
  assumes "single_flight w"
  shows "single_flight (processingShedule w)"
proof (cases "isProcessing w")
  case True
  then show ?thesis using assms by (simp add: processingShedule_def)
next
  case False
  with assms have i: "inflight w = []" by (auto simp: single_flight_def)
  show ?thesis
  proof (cases "triggers w")
    case True
    then show ?thesis
      using False i by (simp add: processingShedule_def single_flight_processJobs)
  next
    case False
    then show ?thesis
      using \<open>\<not> isProcessing w\<close> assms by (simp add: processingShedule_arm single_flight_def)
  qed
qed

lemma single_flight_resume:
  assumes "single_flight w"
  shows "single_flight (processJobs_resume k outcome w)"
proof (cases "map_of (inflight w) k")
  case None
  then show ?thesis using assms by (simp add: processJobs_resume_def)
next
  case (Some p)
  from assms have "length (inflight w) \<le> 1" by (simp add: single_flight_def)
  with Some have "AList.delete k (inflight w) = []"
    by (cases "inflight w") (auto split: if_splits)
  then show ?thesis
    using Some
    by (cases p; cases outcome) (simp_all add: processJobs_resume_def single_flight_def)
qed

lemma single_flight_step:
  assumes "single_flight w" and "timers_owned w" and "guarded env [e] w"
  shows "single_flight (step env e w)"
proof (cases e)
  case (Submit job)
  show ?thesis
  proof (cases "shutDown w")
    case True
    then show ?thesis using assms by (simp add: Submit submit_def)
  next
    case False
    show ?thesis
    proof (cases "calculateMemory env [job]")
      case (Inl e)
      then show ?thesis
        using False assms by (simp add: Submit submit_throws single_flight_def)
    next
      case (Inr m)
      from assms have "single_flight
         (w\<lparr>uuidCalls := Suc (uuidCalls w),
            jobs := AList.update (randomUUID env (uuidCalls w)) job (jobs w),
            currentMemory := currentMemory w + m\<rparr>)"
        by (simp add: single_flight_def)
      then show ?thesis
        using False Inr by (simp add: Submit submit_open single_flight_processingShedule)
    qed
  qed
next
  case (TimerFires t)
  show ?thesis
  proof (cases "t \<in> timers w")
    case True
    with assms(2) have "\<not> isProcessing w" by (auto simp: timers_owned_def)
    with assms(1) have "inflight (w\<lparr>timers := timers w - {t}\<rparr>) = []"
      by (auto simp: single_flight_def)
    then show ?thesis
      using True by (simp add: TimerFires single_flight_processJobs)
  next
    case False
    then show ?thesis using assms by (simp add: TimerFires)
  qed
next
  case (Settles k outcome)
  then show ?thesis using assms by (simp add: single_flight_resume)
next
  case CallShutdown
  show ?thesis
  proof (cases "jobs w = []")
    case True
    then show ?thesis
      using assms by (simp add: CallShutdown shutdown_empty single_flight_def)
  next
    case False
    with assms(3) have "inflight w = []" by (simp add: CallShutdown)
    then show ?thesis
      using False by (simp add: CallShutdown shutdown_nonempty single_flight_def)
  qed
next
  case CallStop
  then show ?thesis using assms by (simp add: stop_eq single_flight_def)
next
  case CallForceProcess
  with assms(3) have "inflight w = []" by simp
  then show ?thesis
    by (simp add: CallForceProcess forceProcess_def single_flight_processJobs)
qed

lemma single_flight_run:
  "single_flight w \<Longrightarrow> timers_owned w \<Longrightarrow> guarded env es w \<Longrightarrow> single_flight (run env es w)"
proof (induction es arbitrary: w)
  case Nil
  then show ?case by simp
next
  case (Cons e es)
  from Cons.prems(3) have g: "guarded env [e] w" "guarded env es (step env e w)"
    by simp_all
  have "single_flight (step env e w)"
    by (rule single_flight_step [OF Cons.prems(1) Cons.prems(2) g(1)])
  moreover have "timers_owned (step env e w)"
    by (rule timers_owned_step [OF Cons.prems(2)])
  ultimately show ?case
    using Cons.IH g(2) by simp
qed

lemma submit_while_processing:
  assumes "isProcessing w"
  shows "calls (step env (Submit job) w) = calls w
       \<and> inflight (step env (Submit job) w) = inflight w
       \<and> timers (step env (Submit job) w) = timers w"
proof (cases "shutDown w")
  case True
  then show ?thesis by (simp add: submit_def)
next
  case False
  then show ?thesis
    using assms
    by (cases "calculateMemory env [job]")
       (simp_all add: submit_open submit_throws processingShedule_def)
qed

text \<open>
  C3, amended. In every state that a constructed instance reaches with \<open>isProcessing\<close>
  set, \<open>submit\<close> starts no batch-fire and arms no timer, and no timer is armed, so the
  expiry of a timer starts none. Hence, in every run in which \<open>forceProcess\<close> is called
  only while no batch-fire is in flight, and \<open>shutdown\<close> only while none is in flight
  or no job is pending, at most one batch-fire is in flight at any time, and
  \<open>isProcessing\<close> is set while it is. Such runs include those that call
  \<open>forceProcess\<close> after a failed fire has left \<open>isProcessing\<close> set.
\<close>

theorem one_fire_unless_forced:
  assumes "constructor config = Inr b"
  shows "(isProcessing (run env es (boot b)) \<longrightarrow>
            (\<forall>job. calls (step env (Submit job) (run env es (boot b)))
                      = calls (run env es (boot b))
                  \<and> inflight (step env (Submit job) (run env es (boot b)))
                      = inflight (run env es (boot b))
                  \<and> timers (step env (Submit job) (run env es (boot b))) = {})
            \<and> (\<forall>t. step env (TimerFires t) (run env es (boot b)) = run env es (boot b)))
       \<and> (guarded env es (boot b) \<longrightarrow>
            length (inflight (run env es (boot b))) \<le> 1
            \<and> (inflight (run env es (boot b)) \<noteq> [] \<longrightarrow> isProcessing (run env es (boot b))))"
proof -
  have o: "timers_owned (run env es (boot b))"
    by (rule timers_owned_run [OF timers_owned_boot])
  have a: "calls (step env (Submit job) (run env es (boot b))) = calls (run env es (boot b))
         \<and> inflight (step env (Submit job) (run env es (boot b)))
             = inflight (run env es (boot b))
         \<and> timers (step env (Submit job) (run env es (boot b))) = {}"
    if "isProcessing (run env es (boot b))" for job
    using submit_while_processing [OF that, of env job] o that
    by (simp add: timers_owned_def)
  have t: "step env (TimerFires t) (run env es (boot b)) = run env es (boot b)"
    if "isProcessing (run env es (boot b))" for t
    using o that by (simp add: timers_owned_def)
  have g: "length (inflight (run env es (boot b))) \<le> 1
         \<and> (inflight (run env es (boot b)) \<noteq> [] \<longrightarrow> isProcessing (run env es (boot b)))"
    if "guarded env es (boot b)"
    using single_flight_run [OF single_flight_boot timers_owned_boot that]
    by (simp add: single_flight_def)
  show ?thesis using a t g by blast
qed

theorem one_fire_unless_forced_witness:
  "constructor (demo_config (Some 1) (Some 1000)) = Inr (demo_batcher (Some 1) (Some 1000))
   \<and> isProcessing (demo 1 [Submit 7])
   \<and> inflight (step demo_env (Submit 8) (demo 1 [Submit 7])) = inflight (demo 1 [Submit 7])
   \<and> calls (step demo_env (Submit 8) (demo 1 [Submit 7])) = calls (demo 1 [Submit 7])
   \<and> step demo_env (TimerFires 0) (demo 1 [Submit 7]) = demo 1 [Submit 7]
   \<and> guarded demo_env [Submit 7, Settles 0 (Inl ''boom''), Submit 8, CallForceProcess]
        (boot (demo_batcher (Some 1) (Some 1000)))
   \<and> isProcessing (demo 1 [Submit 7, Settles 0 (Inl ''boom''), Submit 8])
   \<and> inflight (demo 1 [Submit 7, Settles 0 (Inl ''boom''), Submit 8, CallForceProcess])
       = [(1, ForceProcess, [(''job-i'', 8)])]
   \<and> length (inflight (demo 1 [Submit 7, Settles 0 (Inl ''boom''), Submit 8,
                                CallForceProcess])) \<le> 1"
proof -
  note t1 = one_fire_unless_forced [where env = demo_env and es = "[Submit 7]",
      OF demo_constructed [of "Some 1" "Some 1000"], folded demo_def]
  note t2 = one_fire_unless_forced [where env = demo_env
      and es = "[Submit 7, Settles 0 (Inl ''boom''), Submit 8, CallForceProcess]",
      OF demo_constructed [of "Some 1" "Some 1000"]]
  have p: "isProcessing (demo 1 [Submit 7])"
    "isProcessing (demo 1 [Submit 7, Settles 0 (Inl ''boom''), Submit 8])"
    "inflight (demo 1 [Submit 7, Settles 0 (Inl ''boom''), Submit 8, CallForceProcess])
       = [(1, ForceProcess, [(''job-i'', 8)])]"
    by (simp_all add: demo_defs method_defs)
  have g: "guarded demo_env [Submit 7, Settles 0 (Inl ''boom''), Submit 8, CallForceProcess]
        (boot (demo_batcher (Some 1) (Some 1000)))"
    by (simp add: demo_defs method_defs)
  from t1 p(1) have a: "inflight (step demo_env (Submit 8) (demo 1 [Submit 7]))
        = inflight (demo 1 [Submit 7])"
    "calls (step demo_env (Submit 8) (demo 1 [Submit 7])) = calls (demo 1 [Submit 7])"
    "step demo_env (TimerFires 0) (demo 1 [Submit 7]) = demo 1 [Submit 7]"
    by blast+
  from t2 g have b: "length (inflight (run demo_env
        [Submit 7, Settles 0 (Inl ''boom''), Submit 8, CallForceProcess]
        (boot (demo_batcher (Some 1) (Some 1000))))) \<le> 1"
    by blast
  show ?thesis
    using p g a b demo_constructed [of "Some 1" "Some 1000"] by (simp add: demo_def)
qed

end
